theory Spec2Isabelle
  imports Main
begin

section \<open>The parsed document\<close>

text \<open>
  \<^verbatim>\<open>xml.etree.ElementTree\<close> hands \<^verbatim>\<open>parse_articles\<close> a tree of elements. The code reads
  three things of an element: its tag, its text (\<^verbatim>\<open>None\<close> when the element holds no
  character data before its first child, as for \<^verbatim>\<open><ForeName/>\<close>) and its children in
  document order. Attributes and tails are never read and are left out.
  Text is a list of characters, each character one code point (\<^verbatim>\<open>CHR 0xE9\<close> is the
  letter e with an acute accent, not a byte of its UTF-8 form); the characters of the
  model are the code points below 256. Python's \<^verbatim>\<open>None\<close> is \<open>None\<close>.
\<close>

datatype element = Element (tag: string) (elem_text: "string option") (children: "element list")

text \<open>
  \<^verbatim>\<open>Element.iter(tag)\<close>: the element itself and all its descendants, in document
  (pre-)order, filtered by tag.
\<close>

fun iter :: "string \<Rightarrow> element \<Rightarrow> element list" where
  "iter t (Element g x cs) =
     (if g = t then [Element g x cs] else []) @ concat (map (iter t) cs)"

text \<open>
  The path step \<^verbatim>\<open>.//t\<close> of \<^verbatim>\<open>ElementPath\<close> (\<^verbatim>\<open>prepare_descendant\<close>): what
  \<^verbatim>\<open>elem.iter(t)\<close> yields, the context element itself left out. The path step
  \<^verbatim>\<open>t\<close> (\<^verbatim>\<open>prepare_child\<close>): the direct children with that tag.
\<close>

definition descendants :: "string \<Rightarrow> element \<Rightarrow> element list" where
  "descendants t e = concat (map (iter t) (children e))"

definition child_elems :: "string \<Rightarrow> element \<Rightarrow> element list" where
  "child_elems t e = filter (\<lambda>c. tag c = t) (children e)"

text \<open>\<^verbatim>\<open>next(iterator, None)\<close>: how \<^verbatim>\<open>find\<close> takes the first match of \<^verbatim>\<open>iterfind\<close>.\<close>

definition first :: "'a list \<Rightarrow> 'a option" where
  "first xs = (case xs of [] \<Rightarrow> None | x # _ \<Rightarrow> Some x)"

text \<open>
  \<^verbatim>\<open>e.findall(".//t")\<close>, \<^verbatim>\<open>e.find(".//t")\<close>, \<^verbatim>\<open>e.find("t")\<close>, and the two-step path
  \<^verbatim>\<open>.//t1/t2\<close>: for each \<^verbatim>\<open>t1\<close> descendant in turn, its \<^verbatim>\<open>t2\<close> children.
\<close>

definition findall_desc :: "string \<Rightarrow> element \<Rightarrow> element list" where
  "findall_desc t e = descendants t e"

definition find_desc :: "string \<Rightarrow> element \<Rightarrow> element option" where
  "find_desc t e = first (descendants t e)"

definition find_child :: "string \<Rightarrow> element \<Rightarrow> element option" where
  "find_child t e = first (child_elems t e)"

definition findall_desc_child :: "string \<Rightarrow> string \<Rightarrow> element \<Rightarrow> element list" where
  "findall_desc_child t1 t2 e = concat (map (child_elems t2) (descendants t1 e))"

definition find_desc_child :: "string \<Rightarrow> string \<Rightarrow> element \<Rightarrow> element option" where
  "find_desc_child t1 t2 e = first (findall_desc_child t1 t2 e)"

section \<open>Errors\<close>

text \<open>
  \<^verbatim>\<open>parse_articles\<close> raises \<^verbatim>\<open>RuntimeError\<close> itself; Python raises \<^verbatim>\<open>TypeError\<close> when
  \<^verbatim>\<open>+\<close> or \<^verbatim>\<open>re.search\<close> meets \<^verbatim>\<open>None\<close> where a string is needed;
  \<^verbatim>\<open>ET.fromstring\<close> raises \<^verbatim>\<open>ParseError\<close> on markup that is not well formed, and
  \<^verbatim>\<open>LookupError\<close> or \<^verbatim>\<open>ValueError\<close> on an encoding declaration it does not know or
  does not support.
\<close>

datatype error = RuntimeError string | TypeError | ParseError | LookupError | ValueError

text \<open>\<^verbatim>\<open>a + b\<close> on values that are a string or \<^verbatim>\<open>None\<close>.\<close>

definition py_add :: "string option \<Rightarrow> string option \<Rightarrow> error + string" where
  "py_add a b =
     (case a of
        None \<Rightarrow> Inl TypeError
      | Some x \<Rightarrow> (case b of None \<Rightarrow> Inl TypeError | Some y \<Rightarrow> Inr (x @ y)))"

section \<open>The affiliation classifier\<close>

text \<open>\<^verbatim>\<open>k in s\<close> on strings: \<open>k\<close> occurs in \<open>s\<close> as a contiguous run.\<close>

fun starts_with :: "string \<Rightarrow> string \<Rightarrow> bool" where
  "starts_with [] s = True"
| "starts_with (k # ks) [] = False"
| "starts_with (k # ks) (c # cs) = (k = c \<and> starts_with ks cs)"

fun contains :: "string \<Rightarrow> string \<Rightarrow> bool" where
  "contains k [] = (k = [])"
| "contains k (c # cs) = (starts_with k (c # cs) \<or> contains k cs)"

definition keyword_list :: "string list" where
  "keyword_list = [''Inc'', ''Ltd'', ''Corporation'', ''Pharma'', ''Biotech'', ''LLC'']"

definition excluded :: "string list" where
  "excluded = [''University'', ''Hospital'', ''School'', ''Institute'']"

definition has_company_affiliation :: "string option \<Rightarrow> bool" where
  "has_company_affiliation affiliation =
     (case affiliation of
        None \<Rightarrow> False
      | Some s \<Rightarrow>
          if s = [] then False
          else list_ex (\<lambda>k. contains k s) keyword_list
               \<and> \<not> list_ex (\<lambda>e. contains e s) excluded)"

section \<open>The email pattern\<close>

text \<open>
  The pattern \<^verbatim>\<open>[\w\.-]+@[\w\.-]+\<close> is a sequence of three items: a greedy repetition
  (one or more) of a character class, a literal, and the repetition again.
  \<^verbatim>\<open>re.search\<close> is a backtracking matcher: a repetition first takes as many characters
  as it can and gives them back one at a time while the rest of the pattern fails; the
  search tries the start positions from left to right and returns the first match.
  The pattern is a \<^verbatim>\<open>str\<close> pattern compiled without \<^verbatim>\<open>re.ASCII\<close>, so \<^verbatim>\<open>\w\<close> is the
  Unicode class: the underscore and every character that is alphanumeric in Unicode. On
  the code points below 256 these are the ASCII letters and digits, the underscore,
  the code points 170, 178, 179, 181, 185, 186, 188 to 190, and 192 to 255 except 215
  and 247 (the multiplication and division signs).
\<close>

text \<open>
  The matcher is written for any alphabet \<open>'c\<close>: a Python string is a sequence of
  Unicode code points, and nothing in the search depends on which characters there
  are.
\<close>

datatype 'c re_item = Lit 'c | Plus "'c \<Rightarrow> bool"

fun try_lens :: "('c list \<Rightarrow> 'c list option) \<Rightarrow> 'c list \<Rightarrow> nat \<Rightarrow> 'c list option" where
  "try_lens k s 0 = None"
| "try_lens k s (Suc n) =
     (case k (drop (Suc n) s) of
        Some m \<Rightarrow> Some (take (Suc n) s @ m)
      | None \<Rightarrow> try_lens k s n)"

primrec match_items :: "'c re_item list \<Rightarrow> 'c list \<Rightarrow> 'c list option" where
  "match_items [] = (\<lambda>s. Some [])"
| "match_items (i # r) =
     (\<lambda>s. case i of
        Lit c \<Rightarrow>
          (case s of
             [] \<Rightarrow> None
           | x # xs \<Rightarrow> if x = c then map_option ((#) c) (match_items r xs) else None)
      | Plus cls \<Rightarrow> try_lens (match_items r) s (length (takeWhile cls s)))"

fun re_search :: "'c re_item list \<Rightarrow> 'c list \<Rightarrow> 'c list option" where
  "re_search p [] = match_items p []"
| "re_search p (c # cs) =
     (case match_items p (c # cs) of
        Some m \<Rightarrow> Some m
      | None \<Rightarrow> re_search p cs)"

definition word_char :: "char \<Rightarrow> bool" where
  "word_char c =
     (c \<in> set ''abcdefghijklmnopqrstuvwxyzABCDEFGHIJKLMNOPQRSTUVWXYZ0123456789_''
      \<or> (of_char c :: nat) \<in> set [170, 178, 179, 181, 185, 186, 188, 189, 190]
      \<or> (192 \<le> (of_char c :: nat) \<and> (of_char c :: nat) \<noteq> 215
          \<and> (of_char c :: nat) \<noteq> 247))"

definition email_class :: "char \<Rightarrow> bool" where
  "email_class c = (word_char c \<or> c = CHR ''.'' \<or> c = CHR ''-'')"

definition email_pattern :: "char re_item list" where
  "email_pattern = [Plus email_class, Lit CHR ''@'', Plus email_class]"

text \<open>\<^verbatim>\<open>re.search(pattern, text)\<close> raises \<^verbatim>\<open>TypeError\<close> when the text is \<^verbatim>\<open>None\<close>.\<close>

definition email_match :: "string option \<Rightarrow> error + string option" where
  "email_match affiliation_text =
     (case affiliation_text of
        None \<Rightarrow> Inl TypeError
      | Some s \<Rightarrow> Inr (re_search email_pattern s))"

section \<open>Extraction\<close>

record result_record =
  pmid :: "string option"
  title :: "string option"
  date :: "string option"
  authors :: "string list"
  affiliations :: "string list"
  emails :: "string list"

text \<open>
  The three resolutions at the head of the article loop. A field that is present yields
  its text, whatever that is; only an absent field yields the placeholder.
\<close>

definition resolve_title :: "element \<Rightarrow> string option" where
  "resolve_title article =
     (case find_desc ''ArticleTitle'' article of
        Some title_elem \<Rightarrow> elem_text title_elem
      | None \<Rightarrow> Some ''No Title'')"

definition resolve_pmid :: "element \<Rightarrow> string option" where
  "resolve_pmid article =
     (case find_desc ''PMID'' article of
        Some pmid_elem \<Rightarrow> elem_text pmid_elem
      | None \<Rightarrow> Some ''N/A'')"

definition pub_date :: "element \<Rightarrow> string option" where
  "pub_date article =
     (case find_desc ''PubDate'' article of
        None \<Rightarrow> Some ''Unknown''
      | Some date_elem \<Rightarrow>
          (case find_child ''Year'' date_elem of
             Some year \<Rightarrow> elem_text year
           | None \<Rightarrow>
               (case find_child ''MedlineDate'' date_elem of
                  Some medline_date \<Rightarrow> elem_text medline_date
                | None \<Rightarrow> Some ''Unknown'')))"

text \<open>
  \<^verbatim>\<open>(first.text + " " if first is not None else "") + (last.text if last is not None else "")\<close>
\<close>

definition full_name :: "element \<Rightarrow> error + string" where
  "full_name author =
     (let last = find_child ''LastName'' author;
          forename = find_child ''ForeName'' author
      in case (case forename of
                 Some f \<Rightarrow> py_add (elem_text f) (Some '' '')
               | None \<Rightarrow> Inr [])
         of Inl e \<Rightarrow> Inl e
          | Inr left \<Rightarrow>
              py_add (Some left)
                (case last of Some l \<Rightarrow> elem_text l | None \<Rightarrow> Some []))"

text \<open>
  \<^verbatim>\<open>email = email_match.group(0) if email_match else "N/A"\<close>, after the search of
  line 118.
\<close>

definition extract_email :: "string option \<Rightarrow> error + string" where
  "extract_email affiliation_text =
     (case email_match affiliation_text of
        Inl e \<Rightarrow> Inl e
      | Inr m \<Rightarrow> Inr (case m of Some g \<Rightarrow> g | None \<Rightarrow> ''N/A''))"

text \<open>
  The body of the \<^verbatim>\<open>if\<close> in the author loop (lines 112 to 121): the triple appended
  to \<^verbatim>\<open>company_authors\<close>, or the error raised on the way.
\<close>

definition author_entry :: "element \<Rightarrow> element \<Rightarrow> error + string \<times> string \<times> string" where
  "author_entry author affil_elem =
     (case full_name author of
        Inl e \<Rightarrow> Inl e
      | Inr name \<Rightarrow>
          (let affiliation_text = elem_text affil_elem
           in case extract_email affiliation_text of
                Inl e \<Rightarrow> Inl e
              | Inr email \<Rightarrow>
                  (case affiliation_text of
                     None \<Rightarrow> Inl TypeError
                   | Some t \<Rightarrow> Inr (name, t, email))))"

text \<open>The author loop, with \<^verbatim>\<open>company_authors\<close> as the accumulator.\<close>

fun company_authors_loop ::
  "element list \<Rightarrow> (string \<times> string \<times> string) list
     \<Rightarrow> error + (string \<times> string \<times> string) list" where
  "company_authors_loop [] company_authors = Inr company_authors"
| "company_authors_loop (author # rest) company_authors =
     (case find_desc_child ''AffiliationInfo'' ''Affiliation'' author of
        None \<Rightarrow> company_authors_loop rest company_authors
      | Some affil_elem \<Rightarrow>
          if has_company_affiliation (elem_text affil_elem) then
            (case author_entry author affil_elem of
               Inl e \<Rightarrow> Inl e
             | Inr entry \<Rightarrow> company_authors_loop rest (company_authors @ [entry]))
          else company_authors_loop rest company_authors)"

text \<open>
  One round of the article loop: the record appended to \<^verbatim>\<open>results\<close>, \<open>None\<close> when
  \<^verbatim>\<open>company_authors\<close> is empty.
\<close>

definition process_article :: "element \<Rightarrow> error + result_record option" where
  "process_article article =
     (let title_v = resolve_title article;
          pmid_v = resolve_pmid article;
          date_v = pub_date article
      in case company_authors_loop (findall_desc ''Author'' article) [] of
           Inl e \<Rightarrow> Inl e
         | Inr company_authors \<Rightarrow>
             if company_authors \<noteq> [] then
               Inr (Some \<lparr>pmid = pmid_v, title = title_v, date = date_v,
                          authors = map fst company_authors,
                          affiliations = map (\<lambda>a. fst (snd a)) company_authors,
                          emails = map (\<lambda>a. snd (snd a)) company_authors\<rparr>)
             else Inr None)"

fun articles_loop :: "element list \<Rightarrow> result_record list \<Rightarrow> error + result_record list" where
  "articles_loop [] results = Inr results"
| "articles_loop (article # rest) results =
     (case process_article article of
        Inl e \<Rightarrow> Inl e
      | Inr None \<Rightarrow> articles_loop rest results
      | Inr (Some r) \<Rightarrow> articles_loop rest (results @ [r]))"

text \<open>The traversal of a parsed document: \<^verbatim>\<open>parse_articles\<close> from line 92 on.\<close>

definition extract_records :: "element \<Rightarrow> error + result_record list" where
  "extract_records root = articles_loop (findall_desc ''PubmedArticle'' root) []"

text \<open>
  \<^verbatim>\<open>parse_articles\<close>. The XML parser \<^verbatim>\<open>ET.fromstring\<close> is the library's and is a
  parameter: it returns the root element or raises. Line 89 catches \<^verbatim>\<open>ParseError\<close>
  only and raises the run-time error in its place; whatever else the parser raises
  goes on to the caller.
\<close>

definition parse_articles :: "('b \<Rightarrow> error + element) \<Rightarrow> 'b \<Rightarrow> error + result_record list" where
  "parse_articles fromstring xml_data =
     (case fromstring xml_data of
        Inl e \<Rightarrow>
          if e = ParseError then Inl (RuntimeError ''Error parsing XML data from PubMed'')
          else Inl e
      | Inr root \<Rightarrow> extract_records root)"

section \<open>Notions the properties are stated with\<close>

text \<open>
  The affiliation text of an author entry is the text of the element the author loop
  looks up; it is absent when there is no such element or the element has no text.
  An author qualifies when the classifier accepts that text; a record has a company
  author when one of its authors qualifies.
\<close>

definition affiliation_text :: "element \<Rightarrow> string option" where
  "affiliation_text author =
     (case find_desc_child ''AffiliationInfo'' ''Affiliation'' author of
        None \<Rightarrow> None
      | Some affil_elem \<Rightarrow> elem_text affil_elem)"

definition is_company_author :: "element \<Rightarrow> bool" where
  "is_company_author author = has_company_affiliation (affiliation_text author)"

definition has_company_author :: "element \<Rightarrow> bool" where
  "has_company_author article = list_ex is_company_author (findall_desc ''Author'' article)"






section \<open>Example documents\<close>

text \<open>
  An author entry with the given name fields and one affiliation block, and a record
  with an identifier, a title, a publication year and the given authors.
\<close>

definition example_author :: "element list \<Rightarrow> string \<Rightarrow> element" where
  "example_author name_fields affil =
     Element ''Author'' None
       (name_fields @
        [Element ''AffiliationInfo'' None [Element ''Affiliation'' (Some affil) []]])"

definition example_article :: "string \<Rightarrow> element list \<Rightarrow> element" where
  "example_article ident author_list =
     Element ''PubmedArticle'' None
       [Element ''MedlineCitation'' None
          [Element ''PMID'' (Some ident) [],
           Element ''Article'' None
             [Element ''Journal'' None
                [Element ''JournalIssue'' None
                   [Element ''PubDate'' None [Element ''Year'' (Some ''2021'') []]]],
              Element ''ArticleTitle'' (Some ''A study'') [],
              Element ''AuthorList'' None author_list]]]"

text \<open>
  The scenario of the specification: author A at a university, author B at a company
  whose affiliation holds an address.
\<close>

definition author_a :: element where
  "author_a =
     example_author
       [Element ''LastName'' (Some ''Adams'') [], Element ''ForeName'' (Some ''Ann'') []]
       ''Dept. of Chemistry, Stanford University''"

definition author_b :: element where
  "author_b =
     example_author
       [Element ''LastName'' (Some ''Smith'') [], Element ''ForeName'' (Some ''Bob'') []]
       ''Global Biotech LLC, San Diego, bsmith@globalbiotech.com''"

definition two_author_doc :: element where
  "two_author_doc =
     Element ''PubmedArticleSet'' None [example_article ''12345'' [author_a, author_b]]"

text \<open>
  A company author whose given name is present without text (\<^verbatim>\<open><ForeName/>\<close>), and
  one whose family name is (\<^verbatim>\<open><LastName/>\<close>).
\<close>

definition empty_forename_doc :: element where
  "empty_forename_doc =
     Element ''PubmedArticleSet'' None
       [example_article ''12345''
          [example_author
             [Element ''LastName'' (Some ''Doe'') [], Element ''ForeName'' None []]
             ''Acme Pharma Inc'']]"

definition empty_lastname_doc :: element where
  "empty_lastname_doc =
     Element ''PubmedArticleSet'' None
       [example_article ''12345''
          [example_author [Element ''LastName'' None []] ''Acme Pharma Inc'']]"

text \<open>A record whose identifier field is present and holds the text \<^verbatim>\<open>N/A\<close>.\<close>

definition literal_sentinel_article :: element where
  "literal_sentinel_article = example_article ''N/A'' [author_b]"

text \<open>
  A record whose date block holds a free-form date first and a year second, and an
  author entry whose first affiliation block names a company and whose second names a
  university.
\<close>

definition both_dates_article :: element where
  "both_dates_article =
     Element ''PubmedArticle'' None
       [Element ''PubDate'' None
          [Element ''MedlineDate'' (Some ''2020 Jan-Feb'') [],
           Element ''Year'' (Some ''2021'') []],
        author_b]"

definition company_fields :: "element list" where
  "company_fields =
     [Element ''LastName'' (Some ''Smith'') [], Element ''ForeName'' (Some ''Bob'') [],
      Element ''AffiliationInfo'' None
        [Element ''Affiliation'' (Some ''Global Biotech LLC, San Diego'') []]]"

definition later_block :: element where
  "later_block =
     Element ''AffiliationInfo'' None
       [Element ''Affiliation'' (Some ''Stanford University'') []]"

text \<open>
  A record with the same date block and no company author; a record with a company
  author after one whose company author has a given name without text; and that author
  alone.
\<close>

definition academic_dates_article :: element where
  "academic_dates_article =
     Element ''PubmedArticle'' None
       [Element ''PubDate'' None
          [Element ''MedlineDate'' (Some ''2020 Jan-Feb'') [],
           Element ''Year'' (Some ''2021'') []],
        author_a]"

definition empty_forename_author :: element where
  "empty_forename_author =
     example_author
       [Element ''LastName'' (Some ''Doe'') [], Element ''ForeName'' None []]
       ''Acme Pharma Inc''"

definition mixed_doc :: element where
  "mixed_doc =
     Element ''PubmedArticleSet'' None
       [example_article ''111'' [author_b],
        example_article ''222'' [empty_forename_author]]"


section \<open>The classifier\<close>

lemma starts_with_iff: "starts_with k s \<longleftrightarrow> (\<exists>ss. s = k @ ss)"
  by (induction k s rule: starts_with.induct) auto

lemma contains_iff: "contains k s \<longleftrightarrow> (\<exists>ps ss. s = ps @ k @ ss)"
proof (induction s)
  case Nil
  show ?case by auto
next
  case (Cons c cs)
  have "(\<exists>ps ss. c # cs = ps @ k @ ss) \<longleftrightarrow>
        (\<exists>ss. c # cs = k @ ss) \<or> (\<exists>ps ss. cs = ps @ k @ ss)"
  proof
    assume "\<exists>ps ss. c # cs = ps @ k @ ss"
    then obtain ps ss where eq: "c # cs = ps @ k @ ss" by blast
    show "(\<exists>ss. c # cs = k @ ss) \<or> (\<exists>ps ss. cs = ps @ k @ ss)"
    proof (cases ps)
      case Nil
      with eq show ?thesis by auto
    next
      case (Cons p ps')
      with eq have "cs = ps' @ k @ ss" by simp
      then show ?thesis by blast
    qed
  next
    assume "(\<exists>ss. c # cs = k @ ss) \<or> (\<exists>ps ss. cs = ps @ k @ ss)"
    then show "\<exists>ps ss. c # cs = ps @ k @ ss"
    proof
      assume "\<exists>ss. c # cs = k @ ss"
      then obtain ss where "c # cs = [] @ k @ ss" by auto
      then show ?thesis by blast
    next
      assume "\<exists>ps ss. cs = ps @ k @ ss"
      then obtain ps ss where "c # cs = (c # ps) @ k @ ss" by auto
      then show ?thesis by blast
    qed
  qed
  with Cons show ?case by (simp add: starts_with_iff)
qed

text \<open>
  C2. The classifier rejects an absent and an empty affiliation. For every text it
  accepts exactly when one of the six commercial markers occurs in the text as a
  contiguous, case-sensitive run of characters and none of the four academic markers
  does.
\<close>

theorem has_company_affiliation_markers:
  "has_company_affiliation None = False
   \<and> has_company_affiliation (Some []) = False
   \<and> has_company_affiliation (Some s) =
       ((\<exists>k \<in> set [''Inc'', ''Ltd'', ''Corporation'', ''Pharma'', ''Biotech'', ''LLC''].
            \<exists>ps ss. s = ps @ k @ ss)
        \<and> \<not> (\<exists>e \<in> set [''University'', ''Hospital'', ''School'', ''Institute''].
                \<exists>ps ss. s = ps @ e @ ss))"
proof -
  have markers: "has_company_affiliation (Some s) =
       ((\<exists>k \<in> set keyword_list. contains k s) \<and> \<not> (\<exists>e \<in> set excluded. contains e s))"
    if "s \<noteq> []"
    using that by (simp add: has_company_affiliation_def list_ex_iff)
  have empty: "\<not> contains k []" if "k \<in> set keyword_list" for k
    using that by (auto simp: keyword_list_def)
  have "has_company_affiliation (Some s) =
       ((\<exists>k \<in> set keyword_list. contains k s) \<and> \<not> (\<exists>e \<in> set excluded. contains e s))"
  proof (cases "s = []")
    case True
    then show ?thesis using empty by (auto simp: has_company_affiliation_def)
  next
    case False
    then show ?thesis by (rule markers)
  qed
  then have "has_company_affiliation (Some s) =
       ((\<exists>k \<in> set keyword_list. \<exists>ps ss. s = ps @ k @ ss)
        \<and> \<not> (\<exists>e \<in> set excluded. \<exists>ps ss. s = ps @ e @ ss))"
    by (simp only: contains_iff)
  then show ?thesis
    by (simp add: has_company_affiliation_def keyword_list_def excluded_def)
qed

theorem has_company_affiliation_markers_witness:
  "has_company_affiliation (Some ''Global Biotech LLC, San Diego'') = True
   \<and> (\<exists>ps ss. ''Global Biotech LLC, San Diego'' = ps @ ''Biotech'' @ ss)
   \<and> has_company_affiliation (Some ''Stanford University Pharma'') = False
   \<and> (\<exists>ps ss. ''Stanford University Pharma'' = ps @ ''University'' @ ss)"
proof -
  let ?B = "\<exists>e \<in> set [''University'', ''Hospital'', ''School'', ''Institute''].
              \<exists>ps ss. ''Stanford University Pharma'' = ps @ e @ ss"
  have a: "''Global Biotech LLC, San Diego'' = ''Global '' @ ''Biotech'' @ '' LLC, San Diego''"
    by simp
  have b: "''Stanford University Pharma'' = ''Stanford '' @ ''University'' @ '' Pharma''"
    by simp
  have c: "has_company_affiliation (Some ''Global Biotech LLC, San Diego'') = True"
    by (simp add: has_company_affiliation_def keyword_list_def excluded_def)
  have a': "\<exists>ps ss. ''Global Biotech LLC, San Diego'' = ps @ ''Biotech'' @ ss"
    by (rule exI, rule exI, rule a)
  have b': "\<exists>ps ss. ''Stanford University Pharma'' = ps @ ''University'' @ ss"
    by (rule exI, rule exI, rule b)
  have B: ?B
    by (rule bexI [of _ "''University''"], rule b', simp)
  note eq = has_company_affiliation_markers
    [of "''Stanford University Pharma''", THEN conjunct2, THEN conjunct2]
  have d: "has_company_affiliation (Some ''Stanford University Pharma'') = False"
  proof -
    have "\<not> has_company_affiliation (Some ''Stanford University Pharma'')"
    proof
      assume h: "has_company_affiliation (Some ''Stanford University Pharma'')"
      from iffD1 [OF eq h] have "\<not> ?B" by (rule conjunct2)
      from this B show False by (rule notE)
    qed
    then show ?thesis by (rule eq_False [THEN iffD2])
  qed
  show ?thesis
    by (rule conjI [OF c], rule conjI [OF a'], rule conjI [OF d], rule b')
qed

section \<open>The email search\<close>





















section \<open>The author loop\<close>

lemma has_company_affiliation_Some:
  "has_company_affiliation x \<Longrightarrow> \<exists>t. x = Some t \<and> t \<noteq> []"
  by (cases x) (auto simp: has_company_affiliation_def split: if_splits)

lemma extract_email_Some:
  "extract_email (Some t) =
     Inr (case re_search email_pattern t of Some g \<Rightarrow> g | None \<Rightarrow> ''N/A'')"
  by (simp add: extract_email_def email_match_def)

lemma is_company_author_iff:
  "is_company_author au \<longleftrightarrow>
     (\<exists>af. find_desc_child ''AffiliationInfo'' ''Affiliation'' au = Some af
           \<and> has_company_affiliation (elem_text af))"
  by (cases "find_desc_child ''AffiliationInfo'' ''Affiliation'' au")
     (simp_all add: is_company_author_def affiliation_text_def has_company_affiliation_def)

lemma author_entry_eq:
  assumes "has_company_affiliation (elem_text af)"
  shows "author_entry au af =
     (case full_name au of
        Inl e \<Rightarrow> Inl e
      | Inr n \<Rightarrow>
          (case elem_text af of
             None \<Rightarrow> Inl TypeError
           | Some t \<Rightarrow>
               Inr (n, t, case re_search email_pattern t of Some g \<Rightarrow> g | None \<Rightarrow> ''N/A'')))"
proof -
  from has_company_affiliation_Some [OF assms] obtain t where t: "elem_text af = Some t"
    by (elim exE conjE)
  show ?thesis
    by (simp add: author_entry_def t extract_email_Some split: sum.split)
qed

lemma loop_skip:
  "\<not> is_company_author au \<Longrightarrow>
     company_authors_loop (au # rest) acc = company_authors_loop rest acc"
  by (cases "find_desc_child ''AffiliationInfo'' ''Affiliation'' au")
     (simp_all add: is_company_author_iff)

lemma loop_take:
  assumes "is_company_author au"
  shows "\<exists>t. affiliation_text au = Some t \<and>
     company_authors_loop (au # rest) acc =
       (case full_name au of
          Inl e \<Rightarrow> Inl e
        | Inr n \<Rightarrow>
            company_authors_loop rest
              (acc @ [(n, t, case re_search email_pattern t of
                               Some g \<Rightarrow> g | None \<Rightarrow> ''N/A'')]))"
proof -
  from assms obtain af where
    af: "find_desc_child ''AffiliationInfo'' ''Affiliation'' au = Some af"
    and hc: "has_company_affiliation (elem_text af)"
    unfolding is_company_author_iff by (elim exE conjE)
  from has_company_affiliation_Some [OF hc] obtain t where t: "elem_text af = Some t"
    by (elim exE conjE)
  have a: "affiliation_text au = Some t"
    by (simp add: affiliation_text_def af t)
  have b: "company_authors_loop (au # rest) acc =
       (case full_name au of
          Inl e \<Rightarrow> Inl e
        | Inr n \<Rightarrow>
            company_authors_loop rest
              (acc @ [(n, t, case re_search email_pattern t of
                               Some g \<Rightarrow> g | None \<Rightarrow> ''N/A'')]))"
  proof -
    from hc t have hc': "has_company_affiliation (Some t)" by simp
    show ?thesis
      by (simp add: af hc' author_entry_eq [OF hc] t split: sum.split)
  qed
  from a b show ?thesis by (intro exI conjI)
qed

text \<open>What one company author contributes, as a relation between author and triple.\<close>

lemma company_authors_loop_Inr:
  "company_authors_loop as acc = Inr res \<Longrightarrow>
     \<exists>new. res = acc @ new \<and>
       list_all2 (\<lambda>au ent. full_name au = Inr (fst ent)
                    \<and> affiliation_text au = Some (fst (snd ent))
                    \<and> extract_email (affiliation_text au) = Inr (snd (snd ent)))
         (filter is_company_author as) new"
proof (induction as arbitrary: acc)
  case Nil
  then show ?case by simp
next
  case (Cons au rest)
  show ?case
  proof (cases "is_company_author au")
    case False
    from Cons.prems have "company_authors_loop rest acc = Inr res"
      by (simp only: loop_skip [OF False])
    from Cons.IH [OF this] False show ?thesis by simp
  next
    case True
    from loop_take [OF True, of rest acc] obtain t where
      t: "affiliation_text au = Some t" and
      step: "company_authors_loop (au # rest) acc =
       (case full_name au of
          Inl e \<Rightarrow> Inl e
        | Inr n \<Rightarrow>
            company_authors_loop rest
              (acc @ [(n, t, case re_search email_pattern t of
                               Some g \<Rightarrow> g | None \<Rightarrow> ''N/A'')]))"
      by (elim exE conjE)
    from Cons.prems step obtain n where n: "full_name au = Inr n"
      by (cases "full_name au") simp_all
    let ?ent = "(n, t, case re_search email_pattern t of Some g \<Rightarrow> g | None \<Rightarrow> ''N/A'')"
    from Cons.prems step n have "company_authors_loop rest (acc @ [?ent]) = Inr res"
      by simp
    from Cons.IH [OF this] obtain new where
      res: "res = (acc @ [?ent]) @ new" and
      rel: "list_all2 (\<lambda>au ent. full_name au = Inr (fst ent)
                    \<and> affiliation_text au = Some (fst (snd ent))
                    \<and> extract_email (affiliation_text au) = Inr (snd (snd ent)))
         (filter is_company_author rest) new"
      by (elim exE conjE)
    have "res = acc @ (?ent # new)" using res by simp
    moreover have "list_all2 (\<lambda>au ent. full_name au = Inr (fst ent)
                    \<and> affiliation_text au = Some (fst (snd ent))
                    \<and> extract_email (affiliation_text au) = Inr (snd (snd ent)))
         (filter is_company_author (au # rest)) (?ent # new)"
      using True rel n t by (simp add: extract_email_Some)
    ultimately show ?thesis by (intro exI conjI)
  qed
qed

text \<open>The loop fails only on a company author whose name cannot be put together.\<close>

lemma company_authors_loop_Inl:
  "company_authors_loop as acc = Inl e \<Longrightarrow>
     \<exists>au \<in> set as. is_company_author au \<and> full_name au = Inl e"
proof (induction as arbitrary: acc)
  case Nil
  then show ?case by simp
next
  case (Cons au rest)
  show ?case
  proof (cases "is_company_author au")
    case False
    from Cons.prems have "company_authors_loop rest acc = Inl e"
      by (simp only: loop_skip [OF False])
    from Cons.IH [OF this] show ?thesis by simp
  next
    case True
    from loop_take [OF True, of rest acc] obtain t where
      step: "company_authors_loop (au # rest) acc =
       (case full_name au of
          Inl e \<Rightarrow> Inl e
        | Inr n \<Rightarrow>
            company_authors_loop rest
              (acc @ [(n, t, case re_search email_pattern t of
                               Some g \<Rightarrow> g | None \<Rightarrow> ''N/A'')]))"
      by (elim exE conjE)
    show ?thesis
    proof (cases "full_name au")
      case (Inl e')
      with Cons.prems step have "e' = e" by simp
      with Inl True show ?thesis by simp
    next
      case (Inr n)
      with Cons.prems step have
        "company_authors_loop rest
           (acc @ [(n, t, case re_search email_pattern t of
                            Some g \<Rightarrow> g | None \<Rightarrow> ''N/A'')]) = Inl e"
        by simp
      from Cons.IH [OF this] show ?thesis by simp
    qed
  qed
qed

lemma full_name_error: "full_name au = Inl e \<Longrightarrow> e = TypeError"
  by (auto simp: full_name_def py_add_def Let_def split: option.splits sum.splits)

section \<open>The article loop\<close>

lemma process_article_eq:
  "process_article a =
     (case company_authors_loop (findall_desc ''Author'' a) [] of
        Inl e \<Rightarrow> Inl e
      | Inr ents \<Rightarrow>
          if ents \<noteq> [] then
            Inr (Some \<lparr>pmid = resolve_pmid a, title = resolve_title a, date = pub_date a,
                       authors = map fst ents,
                       affiliations = map (\<lambda>x. fst (snd x)) ents,
                       emails = map (\<lambda>x. snd (snd x)) ents\<rparr>)
          else Inr None)"
  by (simp add: process_article_def Let_def)

lemma process_article_Inr:
  assumes "process_article a = Inr x"
  shows "\<exists>ents. list_all2 (\<lambda>au ent. full_name au = Inr (fst ent)
                    \<and> affiliation_text au = Some (fst (snd ent))
                    \<and> extract_email (affiliation_text au) = Inr (snd (snd ent)))
            (filter is_company_author (findall_desc ''Author'' a)) ents
          \<and> x = (if ents \<noteq> [] then
                   Some \<lparr>pmid = resolve_pmid a, title = resolve_title a, date = pub_date a,
                         authors = map fst ents,
                         affiliations = map (\<lambda>x. fst (snd x)) ents,
                         emails = map (\<lambda>x. snd (snd x)) ents\<rparr>
                 else None)"
proof -
  from assms obtain ents where
    l: "company_authors_loop (findall_desc ''Author'' a) [] = Inr ents"
    unfolding process_article_eq
    by (cases "company_authors_loop (findall_desc ''Author'' a) []") simp_all
  from assms have x: "x = (if ents \<noteq> [] then
                   Some \<lparr>pmid = resolve_pmid a, title = resolve_title a, date = pub_date a,
                         authors = map fst ents,
                         affiliations = map (\<lambda>x. fst (snd x)) ents,
                         emails = map (\<lambda>x. snd (snd x)) ents\<rparr>
                 else None)"
    unfolding process_article_eq l by (simp split: if_splits)
  from company_authors_loop_Inr [OF l] have
    "list_all2 (\<lambda>au ent. full_name au = Inr (fst ent)
                    \<and> affiliation_text au = Some (fst (snd ent))
                    \<and> extract_email (affiliation_text au) = Inr (snd (snd ent)))
            (filter is_company_author (findall_desc ''Author'' a)) ents"
    by simp
  with x show ?thesis by (intro exI conjI)
qed

lemma has_company_author_iff:
  "has_company_author a \<longleftrightarrow> filter is_company_author (findall_desc ''Author'' a) \<noteq> []"
  by (simp add: has_company_author_def list_ex_iff filter_empty_conv)

lemma process_article_emits:
  assumes "process_article a = Inr x"
  shows "(x \<noteq> None) = has_company_author a"
proof -
  from process_article_Inr [OF assms] obtain ents where
    rel: "list_all2 (\<lambda>au ent. full_name au = Inr (fst ent)
                    \<and> affiliation_text au = Some (fst (snd ent))
                    \<and> extract_email (affiliation_text au) = Inr (snd (snd ent)))
            (filter is_company_author (findall_desc ''Author'' a)) ents"
    and x: "x = (if ents \<noteq> [] then
                   Some \<lparr>pmid = resolve_pmid a, title = resolve_title a, date = pub_date a,
                         authors = map fst ents,
                         affiliations = map (\<lambda>x. fst (snd x)) ents,
                         emails = map (\<lambda>x. snd (snd x)) ents\<rparr>
                 else None)"
    by (elim exE conjE)
  from rel have "length (filter is_company_author (findall_desc ''Author'' a)) = length ents"
    by (rule list_all2_lengthD)
  then have "(ents \<noteq> []) = has_company_author a"
    unfolding has_company_author_iff by (metis length_0_conv)
  with x show ?thesis by (simp split: if_splits)
qed

lemma articles_loop_Inr:
  "articles_loop as acc = Inr res \<Longrightarrow>
     \<exists>new. res = acc @ new
       \<and> list_all2 (\<lambda>a r. process_article a = Inr (Some r)) (filter has_company_author as) new
       \<and> (\<forall>a \<in> set as. \<not> has_company_author a \<longrightarrow> process_article a = Inr None)"
proof (induction as arbitrary: acc)
  case Nil
  then show ?case by simp
next
  case (Cons a rest)
  from Cons.prems obtain x where x: "process_article a = Inr x"
    by (cases "process_article a") simp_all
  note em = process_article_emits [OF x]
  show ?case
  proof (cases x)
    case None
    with em have no: "\<not> has_company_author a" by simp
    from Cons.prems x None have "articles_loop rest acc = Inr res" by simp
    from Cons.IH [OF this] obtain new where
      "res = acc @ new"
      "list_all2 (\<lambda>a r. process_article a = Inr (Some r)) (filter has_company_author rest) new"
      "\<forall>a \<in> set rest. \<not> has_company_author a \<longrightarrow> process_article a = Inr None"
      by (elim exE conjE)
    with no x None have "res = acc @ new
       \<and> list_all2 (\<lambda>a r. process_article a = Inr (Some r))
            (filter has_company_author (a # rest)) new
       \<and> (\<forall>a' \<in> set (a # rest). \<not> has_company_author a' \<longrightarrow> process_article a' = Inr None)"
      by simp
    then show ?thesis by (rule exI)
  next
    case (Some r)
    with em have yes: "has_company_author a" by simp
    from Cons.prems x Some have "articles_loop rest (acc @ [r]) = Inr res" by simp
    from Cons.IH [OF this] obtain new where
      "res = (acc @ [r]) @ new"
      "list_all2 (\<lambda>a r. process_article a = Inr (Some r)) (filter has_company_author rest) new"
      "\<forall>a \<in> set rest. \<not> has_company_author a \<longrightarrow> process_article a = Inr None"
      by (elim exE conjE)
    with yes x Some have "res = acc @ (r # new)
       \<and> list_all2 (\<lambda>a r. process_article a = Inr (Some r))
            (filter has_company_author (a # rest)) (r # new)
       \<and> (\<forall>a' \<in> set (a # rest). \<not> has_company_author a' \<longrightarrow> process_article a' = Inr None)"
      by simp
    then show ?thesis by (rule exI)
  qed
qed

text \<open>
  When the traversal of a document returns, its records are, in document order,
  exactly the records emitted for the source records that have at least one author
  whose affiliation text classifies as commercial; a source record without such an
  author yields nothing. So the number of records returned is the number of such
  source records, and at most the number of source records.
\<close>

lemma extract_records_company_authors:
  assumes "extract_records root = Inr rs"
  shows "list_all2 (\<lambda>a r. process_article a = Inr (Some r))
           (filter has_company_author (findall_desc ''PubmedArticle'' root)) rs
         \<and> (\<forall>a \<in> set (findall_desc ''PubmedArticle'' root).
               \<not> has_company_author a \<longrightarrow> process_article a = Inr None)
         \<and> length rs = length (filter has_company_author (findall_desc ''PubmedArticle'' root))
         \<and> length rs \<le> length (findall_desc ''PubmedArticle'' root)"
proof -
  from assms have "articles_loop (findall_desc ''PubmedArticle'' root) [] = Inr rs"
    by (simp only: extract_records_def)
  from articles_loop_Inr [OF this] have
    rel: "list_all2 (\<lambda>a r. process_article a = Inr (Some r))
           (filter has_company_author (findall_desc ''PubmedArticle'' root)) rs"
    and none: "\<forall>a \<in> set (findall_desc ''PubmedArticle'' root).
               \<not> has_company_author a \<longrightarrow> process_article a = Inr None"
    by simp_all
  from rel have len:
    "length rs = length (filter has_company_author (findall_desc ''PubmedArticle'' root))"
    by (rule list_all2_lengthD [symmetric])
  then have "length rs \<le> length (findall_desc ''PubmedArticle'' root)"
    by simp
  with rel none len show ?thesis by (intro conjI)
qed

lemma extract_records_company_authors_example:
  "extract_records two_author_doc =
     Inr [\<lparr>pmid = Some ''12345'', title = Some ''A study'', date = Some ''2021'',
           authors = [''Bob Smith''],
           affiliations = [''Global Biotech LLC, San Diego, bsmith@globalbiotech.com''],
           emails = [''bsmith@globalbiotech.com'']\<rparr>]
   \<and> length (filter has_company_author (findall_desc ''PubmedArticle'' two_author_doc)) = 1
   \<and> length (findall_desc ''PubmedArticle'' two_author_doc) = 1"
proof -
  let ?r = "\<lparr>pmid = Some ''12345'', title = Some ''A study'', date = Some ''2021'',
           authors = [''Bob Smith''],
           affiliations = [''Global Biotech LLC, San Diego, bsmith@globalbiotech.com''],
           emails = [''bsmith@globalbiotech.com'']\<rparr>"
  have ev: "extract_records two_author_doc = Inr [?r]"
    by code_simp
  have n: "length (findall_desc ''PubmedArticle'' two_author_doc) = 1"
    by code_simp
  from extract_records_company_authors [OF ev]
  have "length [?r]
          = length (filter has_company_author (findall_desc ''PubmedArticle'' two_author_doc))"
    by (elim conjE)
  then have "length (filter has_company_author (findall_desc ''PubmedArticle'' two_author_doc)) = 1"
    by simp
  with ev n show ?thesis by (intro conjI)
qed

section \<open>The emitted record\<close>

lemma process_article_Some:
  assumes "process_article a = Inr (Some r)"
  shows "\<exists>ents. list_all2 (\<lambda>au ent. full_name au = Inr (fst ent)
                    \<and> affiliation_text au = Some (fst (snd ent))
                    \<and> extract_email (affiliation_text au) = Inr (snd (snd ent)))
            (filter is_company_author (findall_desc ''Author'' a)) ents
          \<and> r = \<lparr>pmid = resolve_pmid a, title = resolve_title a, date = pub_date a,
                  authors = map fst ents,
                  affiliations = map (\<lambda>x. fst (snd x)) ents,
                  emails = map (\<lambda>x. snd (snd x)) ents\<rparr>"
proof -
  from process_article_Inr [OF assms] obtain ents where
    rel: "list_all2 (\<lambda>au ent. full_name au = Inr (fst ent)
                    \<and> affiliation_text au = Some (fst (snd ent))
                    \<and> extract_email (affiliation_text au) = Inr (snd (snd ent)))
            (filter is_company_author (findall_desc ''Author'' a)) ents"
    and x: "Some r = (if ents \<noteq> [] then
                   Some \<lparr>pmid = resolve_pmid a, title = resolve_title a, date = pub_date a,
                         authors = map fst ents,
                         affiliations = map (\<lambda>x. fst (snd x)) ents,
                         emails = map (\<lambda>x. snd (snd x)) ents\<rparr>
                 else None)"
    by (elim exE conjE)
  from x have "r = \<lparr>pmid = resolve_pmid a, title = resolve_title a, date = pub_date a,
                  authors = map fst ents,
                  affiliations = map (\<lambda>x. fst (snd x)) ents,
                  emails = map (\<lambda>x. snd (snd x)) ents\<rparr>"
    by (simp split: if_splits)
  with rel show ?thesis by (intro exI conjI)
qed

text \<open>
  C4. In every emitted record the three sequences have the same length, the number of
  qualifying authors of the source record, and position \<open>i\<close> of each holds the name, the
  affiliation text and the email of the \<open>i\<close>-th qualifying author in document order.
\<close>

theorem result_sequences_parallel:
  assumes "process_article a = Inr (Some r)"
  shows "length (authors r) = length (filter is_company_author (findall_desc ''Author'' a))
         \<and> length (affiliations r) = length (authors r)
         \<and> length (emails r) = length (authors r)
         \<and> (\<forall>i < length (authors r).
               full_name (filter is_company_author (findall_desc ''Author'' a) ! i)
                 = Inr (authors r ! i)
               \<and> affiliation_text (filter is_company_author (findall_desc ''Author'' a) ! i)
                   = Some (affiliations r ! i)
               \<and> extract_email
                   (affiliation_text (filter is_company_author (findall_desc ''Author'' a) ! i))
                   = Inr (emails r ! i))"
proof -
  let ?qs = "filter is_company_author (findall_desc ''Author'' a)"
  from process_article_Some [OF assms] obtain ents where
    rel: "list_all2 (\<lambda>au ent. full_name au = Inr (fst ent)
                    \<and> affiliation_text au = Some (fst (snd ent))
                    \<and> extract_email (affiliation_text au) = Inr (snd (snd ent))) ?qs ents"
    and r: "r = \<lparr>pmid = resolve_pmid a, title = resolve_title a, date = pub_date a,
                  authors = map fst ents,
                  affiliations = map (\<lambda>x. fst (snd x)) ents,
                  emails = map (\<lambda>x. snd (snd x)) ents\<rparr>"
    by (elim exE conjE)
  from rel have len: "length ?qs = length ents"
    by (rule list_all2_lengthD)
  have nth: "full_name (?qs ! i) = Inr (fst (ents ! i))
       \<and> affiliation_text (?qs ! i) = Some (fst (snd (ents ! i)))
       \<and> extract_email (affiliation_text (?qs ! i)) = Inr (snd (snd (ents ! i)))"
    if "i < length ents" for i
    using list_all2_nthD2 [OF rel that] .
  have a: "length (authors r) = length ?qs" by (simp add: r len)
  have b: "length (affiliations r) = length (authors r)" by (simp add: r)
  have c: "length (emails r) = length (authors r)" by (simp add: r)
  have d: "\<forall>i < length (authors r).
               full_name (?qs ! i) = Inr (authors r ! i)
               \<and> affiliation_text (?qs ! i) = Some (affiliations r ! i)
               \<and> extract_email (affiliation_text (?qs ! i)) = Inr (emails r ! i)"
  proof (intro allI impI)
    fix i assume "i < length (authors r)"
    then have i: "i < length ents" by (simp add: r)
    note n = nth [OF i]
    note n1 = n [THEN conjunct1]
    note n2 = n [THEN conjunct2, THEN conjunct1]
    note n3 = n [THEN conjunct2, THEN conjunct2]
    have e1: "authors r ! i = fst (ents ! i)" using i by (simp add: r)
    have e2: "affiliations r ! i = fst (snd (ents ! i))" using i by (simp add: r)
    have e3: "emails r ! i = snd (snd (ents ! i))" using i by (simp add: r)
    from n1 n2 n3 show "full_name (?qs ! i) = Inr (authors r ! i)
               \<and> affiliation_text (?qs ! i) = Some (affiliations r ! i)
               \<and> extract_email (affiliation_text (?qs ! i)) = Inr (emails r ! i)"
      unfolding e1 e2 e3 by (intro conjI)
  qed
  from a b c d show ?thesis by (intro conjI)
qed

theorem result_sequences_parallel_witness:
  "process_article (example_article ''12345'' [author_a, author_b]) =
     Inr (Some \<lparr>pmid = Some ''12345'', title = Some ''A study'', date = Some ''2021'',
           authors = [''Bob Smith''],
           affiliations = [''Global Biotech LLC, San Diego, bsmith@globalbiotech.com''],
           emails = [''bsmith@globalbiotech.com'']\<rparr>)
   \<and> length (filter is_company_author
        (findall_desc ''Author'' (example_article ''12345'' [author_a, author_b]))) = 1
   \<and> full_name (filter is_company_author
        (findall_desc ''Author'' (example_article ''12345'' [author_a, author_b])) ! 0)
       = Inr ''Bob Smith''"
proof -
  let ?a = "example_article ''12345'' [author_a, author_b]"
  let ?r = "\<lparr>pmid = Some ''12345'', title = Some ''A study'', date = Some ''2021'',
           authors = [''Bob Smith''],
           affiliations = [''Global Biotech LLC, San Diego, bsmith@globalbiotech.com''],
           emails = [''bsmith@globalbiotech.com'']\<rparr>"
  have ev: "process_article ?a = Inr (Some ?r)"
    by code_simp
  note inst = result_sequences_parallel [OF ev]
  from inst have len: "length (authors ?r) = length (filter is_company_author (findall_desc ''Author'' ?a))"
    by (elim conjE)
  from inst have all: "\<forall>i < length (authors ?r).
               full_name (filter is_company_author (findall_desc ''Author'' ?a) ! i)
                 = Inr (authors ?r ! i)
               \<and> affiliation_text (filter is_company_author (findall_desc ''Author'' ?a) ! i)
                   = Some (affiliations ?r ! i)
               \<and> extract_email
                   (affiliation_text (filter is_company_author (findall_desc ''Author'' ?a) ! i))
                   = Inr (emails ?r ! i)"
    by (elim conjE)
  have "0 < length (authors ?r)" by simp
  with all have "full_name (filter is_company_author (findall_desc ''Author'' ?a) ! 0)
                 = Inr (authors ?r ! 0)"
    by (elim allE impE conjE) assumption+
  then have n: "full_name (filter is_company_author (findall_desc ''Author'' ?a) ! 0)
                 = Inr ''Bob Smith''" by simp
  from len have l: "length (filter is_company_author (findall_desc ''Author'' ?a)) = 1"
    by simp
  from ev l n show ?thesis by (intro conjI)
qed

section \<open>Title, identifier and date\<close>

lemma first_None_iff: "first xs = None \<longleftrightarrow> xs = []"
  by (cases xs) (simp_all add: first_def)

lemma first_Some_iff: "first xs = Some x \<longleftrightarrow> (\<exists>ys. xs = x # ys)"
  by (cases xs) (auto simp: first_def)

lemma find_child_None_iff:
  "find_child t d = None \<longleftrightarrow> (\<forall>c \<in> set (children d). tag c \<noteq> t)"
  by (simp add: find_child_def child_elems_def first_None_iff filter_empty_conv)

lemma find_child_Some_iff:
  "find_child t d = Some y \<longleftrightarrow>
     (\<exists>pre post. children d = pre @ y # post \<and> tag y = t \<and> (\<forall>c \<in> set pre. tag c \<noteq> t))"
proof
  assume "find_child t d = Some y"
  then obtain ys where "filter (\<lambda>c. tag c = t) (children d) = y # ys"
    unfolding find_child_def child_elems_def first_Some_iff by (elim exE)
  then obtain pre post where "children d = pre @ y # post" "\<forall>u \<in> set pre. \<not> tag u = t" "tag y = t"
    unfolding filter_eq_Cons_iff by (elim exE conjE)
  then have "children d = pre @ y # post \<and> tag y = t \<and> (\<forall>c \<in> set pre. tag c \<noteq> t)"
    by (intro conjI)
  then show "\<exists>pre post. children d = pre @ y # post \<and> tag y = t \<and> (\<forall>c \<in> set pre. tag c \<noteq> t)"
    by (intro exI)
next
  assume "\<exists>pre post. children d = pre @ y # post \<and> tag y = t \<and> (\<forall>c \<in> set pre. tag c \<noteq> t)"
  then obtain pre post where c: "children d = pre @ y # post" and "tag y = t"
    and "\<forall>c \<in> set pre. tag c \<noteq> t"
    by (elim exE conjE)
  then have "filter (\<lambda>c. tag c = t) (children d) = y # filter (\<lambda>c. tag c = t) post"
    by (simp add: filter_empty_conv [THEN iffD2])
  then show "find_child t d = Some y"
    by (simp add: find_child_def child_elems_def first_def)
qed

lemma emitted_fields:
  assumes "process_article a = Inr (Some r)"
  shows "pmid r = resolve_pmid a" and "title r = resolve_title a" and "date r = pub_date a"
proof -
  from process_article_Some [OF assms] obtain ents where
    "r = \<lparr>pmid = resolve_pmid a, title = resolve_title a, date = pub_date a,
                  authors = map fst ents,
                  affiliations = map (\<lambda>x. fst (snd x)) ents,
                  emails = map (\<lambda>x. snd (snd x)) ents\<rparr>"
    by (elim exE conjE)
  then show "pmid r = resolve_pmid a" and "title r = resolve_title a" and "date r = pub_date a"
    by simp_all
qed

text \<open>
  The claim C5 as stated fails where a field that is present holds the placeholder's
  own characters: the record below has an identifier field, and its pmid is \<^verbatim>\<open>N/A\<close>.
\<close>

theorem sentinel_with_field_present_counterexample:
  "process_article literal_sentinel_article =
     Inr (Some \<lparr>pmid = Some ''N/A'', title = Some ''A study'', date = Some ''2021'',
           authors = [''Bob Smith''],
           affiliations = [''Global Biotech LLC, San Diego, bsmith@globalbiotech.com''],
           emails = [''bsmith@globalbiotech.com'']\<rparr>)
   \<and> find_desc ''PMID'' literal_sentinel_article = Some (Element ''PMID'' (Some ''N/A'') [])"
  by code_simp

text \<open>
  C5, amended. In every emitted record, pmid is the text of the identifier field when
  the field is present (no text when the field has none) and \<^verbatim>\<open>N/A\<close> when it is absent,
  so pmid is \<^verbatim>\<open>N/A\<close> exactly when the record has no identifier field or the field's own
  text is \<^verbatim>\<open>N/A\<close>; likewise the title and \<^verbatim>\<open>No Title\<close>. The date is \<^verbatim>\<open>Unknown\<close>
  exactly when the date block is absent, or both of its sub-fields are, or the
  sub-field consulted holds the text \<^verbatim>\<open>Unknown\<close> itself. A placeholder never stands in
  for a field that is present: a present field without text stays without text.
\<close>

theorem sentinels_for_absent_fields:
  assumes "process_article a = Inr (Some r)"
  shows "(find_desc ''PMID'' a = None \<longrightarrow> pmid r = Some ''N/A'')
       \<and> (\<forall>e. find_desc ''PMID'' a = Some e \<longrightarrow> pmid r = elem_text e)
       \<and> ((pmid r = Some ''N/A'') =
            (find_desc ''PMID'' a = None
             \<or> (\<exists>e. find_desc ''PMID'' a = Some e \<and> elem_text e = Some ''N/A'')))
       \<and> (find_desc ''ArticleTitle'' a = None \<longrightarrow> title r = Some ''No Title'')
       \<and> (\<forall>e. find_desc ''ArticleTitle'' a = Some e \<longrightarrow> title r = elem_text e)
       \<and> ((title r = Some ''No Title'') =
            (find_desc ''ArticleTitle'' a = None
             \<or> (\<exists>e. find_desc ''ArticleTitle'' a = Some e \<and> elem_text e = Some ''No Title'')))
       \<and> ((date r = Some ''Unknown'') =
            (find_desc ''PubDate'' a = None
             \<or> (\<exists>d. find_desc ''PubDate'' a = Some d
                    \<and> ((find_child ''Year'' d = None \<and> find_child ''MedlineDate'' d = None)
                       \<or> (\<exists>y. find_child ''Year'' d = Some y \<and> elem_text y = Some ''Unknown'')
                       \<or> (find_child ''Year'' d = None
                          \<and> (\<exists>m. find_child ''MedlineDate'' d = Some m
                                  \<and> elem_text m = Some ''Unknown''))))))"
proof -
  note f = emitted_fields [OF assms]
  have p1: "find_desc ''PMID'' a = None \<longrightarrow> pmid r = Some ''N/A''"
    by (simp add: f resolve_pmid_def)
  have p2: "\<forall>e. find_desc ''PMID'' a = Some e \<longrightarrow> pmid r = elem_text e"
    by (simp add: f resolve_pmid_def)
  have p3: "(pmid r = Some ''N/A'') =
            (find_desc ''PMID'' a = None
             \<or> (\<exists>e. find_desc ''PMID'' a = Some e \<and> elem_text e = Some ''N/A''))"
    by (cases "find_desc ''PMID'' a") (simp_all add: f resolve_pmid_def)
  have t1: "find_desc ''ArticleTitle'' a = None \<longrightarrow> title r = Some ''No Title''"
    by (simp add: f resolve_title_def)
  have t2: "\<forall>e. find_desc ''ArticleTitle'' a = Some e \<longrightarrow> title r = elem_text e"
    by (simp add: f resolve_title_def)
  have t3: "(title r = Some ''No Title'') =
            (find_desc ''ArticleTitle'' a = None
             \<or> (\<exists>e. find_desc ''ArticleTitle'' a = Some e \<and> elem_text e = Some ''No Title''))"
    by (cases "find_desc ''ArticleTitle'' a") (simp_all add: f resolve_title_def)
  have d3: "(date r = Some ''Unknown'') =
            (find_desc ''PubDate'' a = None
             \<or> (\<exists>d. find_desc ''PubDate'' a = Some d
                    \<and> ((find_child ''Year'' d = None \<and> find_child ''MedlineDate'' d = None)
                       \<or> (\<exists>y. find_child ''Year'' d = Some y \<and> elem_text y = Some ''Unknown'')
                       \<or> (find_child ''Year'' d = None
                          \<and> (\<exists>m. find_child ''MedlineDate'' d = Some m
                                  \<and> elem_text m = Some ''Unknown'')))))"
  proof (cases "find_desc ''PubDate'' a")
    case None
    then show ?thesis by (simp add: f pub_date_def)
  next
    case (Some d)
    show ?thesis
    proof (cases "find_child ''Year'' d")
      case (Some y)
      with \<open>find_desc ''PubDate'' a = Some d\<close> show ?thesis
        by (simp add: f pub_date_def)
    next
      case None
      with \<open>find_desc ''PubDate'' a = Some d\<close> show ?thesis
        by (cases "find_child ''MedlineDate'' d") (simp_all add: f pub_date_def)
    qed
  qed
  from p1 p2 p3 t1 t2 t3 d3 show ?thesis by (intro conjI)
qed

theorem sentinels_for_absent_fields_witness:
  "process_article both_dates_article =
     Inr (Some \<lparr>pmid = Some ''N/A'', title = Some ''No Title'', date = Some ''2021'',
           authors = [''Bob Smith''],
           affiliations = [''Global Biotech LLC, San Diego, bsmith@globalbiotech.com''],
           emails = [''bsmith@globalbiotech.com'']\<rparr>)
   \<and> (find_desc ''PMID'' both_dates_article = None
      \<or> (\<exists>e. find_desc ''PMID'' both_dates_article = Some e \<and> elem_text e = Some ''N/A''))
   \<and> find_desc ''PMID'' both_dates_article = None
   \<and> find_desc ''ArticleTitle'' both_dates_article = None"
proof -
  let ?r = "\<lparr>pmid = Some ''N/A'', title = Some ''No Title'', date = Some ''2021'',
           authors = [''Bob Smith''],
           affiliations = [''Global Biotech LLC, San Diego, bsmith@globalbiotech.com''],
           emails = [''bsmith@globalbiotech.com'']\<rparr>"
  have ev: "process_article both_dates_article = Inr (Some ?r)"
    by code_simp
  note inst = sentinels_for_absent_fields [OF ev]
  note iff = inst [THEN conjunct2, THEN conjunct2, THEN conjunct1]
  have "pmid ?r = Some ''N/A''" by simp
  with iff have a: "find_desc ''PMID'' both_dates_article = None
             \<or> (\<exists>e. find_desc ''PMID'' both_dates_article = Some e \<and> elem_text e = Some ''N/A'')"
    by (rule iffD1)
  have b: "find_desc ''PMID'' both_dates_article = None" by code_simp
  have c: "find_desc ''ArticleTitle'' both_dates_article = None" by code_simp
  from ev a b c show ?thesis by (intro conjI)
qed

text \<open>
  C6. For every record with a date block, emitted or not, the resolved date is the text
  of the first year sub-field when the block has one, whatever else it holds; without a
  year it is the text of the first free-form date sub-field when the block has one;
  with neither it is \<^verbatim>\<open>Unknown\<close>. The two sub-fields are never combined. The date
  of an emitted record is the resolved date.
\<close>

theorem pub_date_priority:
  assumes "find_desc ''PubDate'' a = Some d"
  shows "(\<forall>pre y post. children d = pre @ y # post \<and> tag y = ''Year''
                        \<and> (\<forall>c \<in> set pre. tag c \<noteq> ''Year'')
            \<longrightarrow> pub_date a = elem_text y)
       \<and> ((\<forall>c \<in> set (children d). tag c \<noteq> ''Year'') \<longrightarrow>
            (\<forall>pre m post. children d = pre @ m # post \<and> tag m = ''MedlineDate''
                          \<and> (\<forall>c \<in> set pre. tag c \<noteq> ''MedlineDate'')
               \<longrightarrow> pub_date a = elem_text m))
       \<and> ((\<forall>c \<in> set (children d). tag c \<noteq> ''Year'' \<and> tag c \<noteq> ''MedlineDate'')
            \<longrightarrow> pub_date a = Some ''Unknown'')
       \<and> (\<forall>r. process_article a = Inr (Some r) \<longrightarrow> date r = pub_date a)"
proof -
  have y: "pub_date a = elem_text y"
    if "children d = pre @ y # post \<and> tag y = ''Year'' \<and> (\<forall>c \<in> set pre. tag c \<noteq> ''Year'')"
    for pre y post
  proof -
    from that have "\<exists>pre post. children d = pre @ y # post \<and> tag y = ''Year''
         \<and> (\<forall>c \<in> set pre. tag c \<noteq> ''Year'')"
      by (intro exI)
    then have "find_child ''Year'' d = Some y"
      by (rule find_child_Some_iff [THEN iffD2])
    then show ?thesis by (simp add: pub_date_def assms)
  qed
  have m: "pub_date a = elem_text m"
    if no: "\<forall>c \<in> set (children d). tag c \<noteq> ''Year''"
    and "children d = pre @ m # post \<and> tag m = ''MedlineDate''
         \<and> (\<forall>c \<in> set pre. tag c \<noteq> ''MedlineDate'')"
    for pre m post
  proof -
    from no have ny: "find_child ''Year'' d = None"
      by (rule find_child_None_iff [THEN iffD2])
    from that(2) have "\<exists>pre post. children d = pre @ m # post \<and> tag m = ''MedlineDate''
         \<and> (\<forall>c \<in> set pre. tag c \<noteq> ''MedlineDate'')"
      by (intro exI)
    then have "find_child ''MedlineDate'' d = Some m"
      by (rule find_child_Some_iff [THEN iffD2])
    with ny show ?thesis by (simp add: pub_date_def assms)
  qed
  have u: "pub_date a = Some ''Unknown''"
    if "\<forall>c \<in> set (children d). tag c \<noteq> ''Year'' \<and> tag c \<noteq> ''MedlineDate''"
  proof -
    from that have "find_child ''Year'' d = None" "find_child ''MedlineDate'' d = None"
      by (simp_all add: find_child_None_iff)
    then show ?thesis by (simp add: pub_date_def assms)
  qed
  have c1: "\<forall>pre y post. children d = pre @ y # post \<and> tag y = ''Year''
                        \<and> (\<forall>c \<in> set pre. tag c \<noteq> ''Year'')
            \<longrightarrow> pub_date a = elem_text y"
    by (intro allI impI) (rule y)
  have c2: "(\<forall>c \<in> set (children d). tag c \<noteq> ''Year'') \<longrightarrow>
            (\<forall>pre m post. children d = pre @ m # post \<and> tag m = ''MedlineDate''
                          \<and> (\<forall>c \<in> set pre. tag c \<noteq> ''MedlineDate'')
               \<longrightarrow> pub_date a = elem_text m)"
    by (intro allI impI) (rule m)
  have c3: "(\<forall>c \<in> set (children d). tag c \<noteq> ''Year'' \<and> tag c \<noteq> ''MedlineDate'')
            \<longrightarrow> pub_date a = Some ''Unknown''"
    by (intro impI) (rule u)
  have c4: "\<forall>r. process_article a = Inr (Some r) \<longrightarrow> date r = pub_date a"
    by (intro allI impI) (rule emitted_fields(3))
  from c1 c2 c3 c4 show ?thesis by (intro conjI)
qed

theorem pub_date_priority_witness:
  "find_desc ''PubDate'' academic_dates_article =
       Some (Element ''PubDate'' None
               [Element ''MedlineDate'' (Some ''2020 Jan-Feb'') [],
                Element ''Year'' (Some ''2021'') []])
   \<and> process_article academic_dates_article = Inr None
   \<and> pub_date academic_dates_article = Some ''2021''"
proof -
  let ?d = "Element ''PubDate'' None
               [Element ''MedlineDate'' (Some ''2020 Jan-Feb'') [],
                Element ''Year'' (Some ''2021'') []]"
  have d: "find_desc ''PubDate'' academic_dates_article = Some ?d"
    by code_simp
  have n: "process_article academic_dates_article = Inr None"
    by code_simp
  note inst = pub_date_priority [OF d, THEN conjunct1]
  have "children ?d = [Element ''MedlineDate'' (Some ''2020 Jan-Feb'') []]
                        @ Element ''Year'' (Some ''2021'') [] # []
        \<and> tag (Element ''Year'' (Some ''2021'') []) = ''Year''
        \<and> (\<forall>c \<in> set [Element ''MedlineDate'' (Some ''2020 Jan-Feb'') []]. tag c \<noteq> ''Year'')"
    by simp
  with inst have "pub_date academic_dates_article = elem_text (Element ''Year'' (Some ''2021'') [])"
    by (elim allE impE) assumption+
  then have "pub_date academic_dates_article = Some ''2021''" by simp
  with d n show ?thesis by (intro conjI)
qed

section \<open>The full name\<close>

text \<open>
  The full name of an author entry is the given name, a single space and the family
  name when both name parts are present with text; the family name alone when the given
  name is absent; and empty when both are absent.
\<close>

lemma full_name_concatenation:
  "(find_child ''ForeName'' au = Some f \<and> elem_text f = Some given
      \<and> find_child ''LastName'' au = Some l \<and> elem_text l = Some family
      \<longrightarrow> full_name au = Inr (given @ '' '' @ family))
   \<and> (find_child ''ForeName'' au = None
      \<and> find_child ''LastName'' au = Some l \<and> elem_text l = Some family
      \<longrightarrow> full_name au = Inr family)
   \<and> (find_child ''ForeName'' au = None \<and> find_child ''LastName'' au = None
      \<longrightarrow> full_name au = Inr [])"
  by (simp add: full_name_def py_add_def)

lemma full_name_concatenation_example:
  "find_child ''ForeName'' author_b = Some (Element ''ForeName'' (Some ''Bob'') [])
   \<and> find_child ''LastName'' author_b = Some (Element ''LastName'' (Some ''Smith'') [])
   \<and> full_name author_b = Inr ''Bob Smith''"
proof -
  have f: "find_child ''ForeName'' author_b = Some (Element ''ForeName'' (Some ''Bob'') [])"
    by code_simp
  have l: "find_child ''LastName'' author_b = Some (Element ''LastName'' (Some ''Smith'') [])"
    by code_simp
  have "find_child ''ForeName'' author_b = Some (Element ''ForeName'' (Some ''Bob'') [])
      \<and> elem_text (Element ''ForeName'' (Some ''Bob'') []) = Some ''Bob''
      \<and> find_child ''LastName'' author_b = Some (Element ''LastName'' (Some ''Smith'') [])
      \<and> elem_text (Element ''LastName'' (Some ''Smith'') []) = Some ''Smith''"
    using f l by simp
  with full_name_concatenation
    [of author_b "Element ''ForeName'' (Some ''Bob'') []" "''Bob''"
        "Element ''LastName'' (Some ''Smith'') []" "''Smith''", THEN conjunct1]
  have "full_name author_b = Inr (''Bob'' @ '' '' @ ''Smith'')"
    by (rule mp)
  then have "full_name author_b = Inr ''Bob Smith''" by simp
  with f l show ?thesis by (intro conjI)
qed

text \<open>When the name of an author entry cannot be put together.\<close>

lemma full_name_Inl_iff:
  "full_name au = Inl e \<longleftrightarrow>
     e = TypeError
     \<and> ((\<exists>f. find_child ''ForeName'' au = Some f \<and> elem_text f = None)
        \<or> (\<exists>l. find_child ''LastName'' au = Some l \<and> elem_text l = None))"
  by (cases "find_child ''ForeName'' au"; cases "find_child ''LastName'' au")
     (auto simp: full_name_def py_add_def split: option.splits)

text \<open>
  C7. The full name is not the given name, a space and the family name whenever both
  name parts are present: for a company author whose given name is present without text
  the concatenation raises and no name is built.
\<close>

theorem full_name_raises_without_text:
  "find_child ''ForeName'' empty_forename_author = Some (Element ''ForeName'' None [])
   \<and> find_child ''LastName'' empty_forename_author
       = Some (Element ''LastName'' (Some ''Doe'') [])
   \<and> is_company_author empty_forename_author
   \<and> full_name empty_forename_author = Inl TypeError"
  by code_simp

section \<open>Errors of the traversal\<close>

lemma process_article_Inl:
  assumes "process_article a = Inl e"
  shows "\<exists>au \<in> set (findall_desc ''Author'' a). is_company_author au \<and> full_name au = Inl e"
proof -
  from assms have "company_authors_loop (findall_desc ''Author'' a) [] = Inl e"
    unfolding process_article_eq
    by (cases "company_authors_loop (findall_desc ''Author'' a) []") (simp_all split: if_splits)
  then show ?thesis by (rule company_authors_loop_Inl)
qed

lemma articles_loop_Inl:
  "articles_loop as acc = Inl e \<Longrightarrow> \<exists>a \<in> set as. process_article a = Inl e"
proof (induction as arbitrary: acc)
  case Nil
  then show ?case by simp
next
  case (Cons a rest)
  show ?case
  proof (cases "process_article a")
    case (Inl e')
    with Cons.prems have "e' = e" by simp
    with Inl show ?thesis by simp
  next
    case (Inr x)
    with Cons.prems have "\<exists>acc'. articles_loop rest acc' = Inl e"
      by (cases x) auto
    then obtain acc' where "articles_loop rest acc' = Inl e" ..
    from Cons.IH [OF this] show ?thesis by simp
  qed
qed

text \<open>
  The traversal raises only where a company author has a name part that is present
  without text, and then it raises a type error.
\<close>

lemma extract_records_Inl:
  assumes "extract_records root = Inl e"
  shows "e = TypeError
         \<and> (\<exists>a \<in> set (findall_desc ''PubmedArticle'' root).
              \<exists>au \<in> set (findall_desc ''Author'' a).
                is_company_author au
                \<and> ((\<exists>f. find_child ''ForeName'' au = Some f \<and> elem_text f = None)
                   \<or> (\<exists>l. find_child ''LastName'' au = Some l \<and> elem_text l = None)))"
proof -
  from assms have "articles_loop (findall_desc ''PubmedArticle'' root) [] = Inl e"
    by (simp only: extract_records_def)
  from articles_loop_Inl [OF this] obtain a where
    a: "a \<in> set (findall_desc ''PubmedArticle'' root)" and "process_article a = Inl e"
    by (elim bexE)
  from process_article_Inl [OF this(2)] obtain au where
    au: "au \<in> set (findall_desc ''Author'' a)" and c: "is_company_author au"
    and "full_name au = Inl e"
    by (elim bexE conjE)
  note en = this(3) [unfolded full_name_Inl_iff]
  note e = en [THEN conjunct1]
  note n = en [THEN conjunct2]
  from c n have "is_company_author au
                \<and> ((\<exists>f. find_child ''ForeName'' au = Some f \<and> elem_text f = None)
                   \<or> (\<exists>l. find_child ''LastName'' au = Some l \<and> elem_text l = None))"
    by (rule conjI)
  from this au have "\<exists>au \<in> set (findall_desc ''Author'' a).
                is_company_author au
                \<and> ((\<exists>f. find_child ''ForeName'' au = Some f \<and> elem_text f = None)
                   \<or> (\<exists>l. find_child ''LastName'' au = Some l \<and> elem_text l = None))"
    by (rule bexI)
  from this a have "\<exists>a \<in> set (findall_desc ''PubmedArticle'' root).
              \<exists>au \<in> set (findall_desc ''Author'' a).
                is_company_author au
                \<and> ((\<exists>f. find_child ''ForeName'' au = Some f \<and> elem_text f = None)
                   \<or> (\<exists>l. find_child ''LastName'' au = Some l \<and> elem_text l = None))"
    by (rule bexI)
  with e show ?thesis by (rule conjI)
qed

text \<open>
  So the traversal returns for every document in which no company author has a name
  part that is present without text, however sparse the other fields are.
\<close>

lemma extract_records_returns:
  assumes "\<forall>a \<in> set (findall_desc ''PubmedArticle'' root).
             \<forall>au \<in> set (findall_desc ''Author'' a).
               is_company_author au \<longrightarrow>
                 (\<forall>f. find_child ''ForeName'' au = Some f \<longrightarrow> elem_text f \<noteq> None)
                 \<and> (\<forall>l. find_child ''LastName'' au = Some l \<longrightarrow> elem_text l \<noteq> None)"
  shows "\<exists>rs. extract_records root = Inr rs"
proof (cases "extract_records root")
  case (Inr rs)
  then show ?thesis by (rule exI)
next
  case (Inl e)
  from extract_records_Inl [OF Inl, THEN conjunct2] obtain a au where
    a: "a \<in> set (findall_desc ''PubmedArticle'' root)"
    and au: "au \<in> set (findall_desc ''Author'' a)"
    and c: "is_company_author au"
    and n: "(\<exists>f. find_child ''ForeName'' au = Some f \<and> elem_text f = None)
           \<or> (\<exists>l. find_child ''LastName'' au = Some l \<and> elem_text l = None)"
    by (elim bexE conjE)
  have
    ok: "(\<forall>f. find_child ''ForeName'' au = Some f \<longrightarrow> elem_text f \<noteq> None)
         \<and> (\<forall>l. find_child ''LastName'' au = Some l \<longrightarrow> elem_text l \<noteq> None)"
    using assms [rule_format, OF a au c] .
  from n show ?thesis
  proof
    assume "\<exists>f. find_child ''ForeName'' au = Some f \<and> elem_text f = None"
    then obtain f where "find_child ''ForeName'' au = Some f" "elem_text f = None"
      by (elim exE conjE)
    with ok [THEN conjunct1] show ?thesis by simp
  next
    assume "\<exists>l. find_child ''LastName'' au = Some l \<and> elem_text l = None"
    then obtain l where "find_child ''LastName'' au = Some l" "elem_text l = None"
      by (elim exE conjE)
    with ok [THEN conjunct2] show ?thesis by simp
  qed
qed

text \<open>
  C3. The traversal does raise on a well-formed document: a company author whose given
  name is present without text makes the name concatenation fail.
\<close>

theorem empty_forename_raises:
  "extract_records empty_forename_doc = Inl TypeError"
  by code_simp

text \<open>
  C1. The output does not hold a record for every source record with a company author:
  in the document below the first record has one and would be emitted, the second makes
  the traversal raise, and nothing is returned.
\<close>

theorem company_record_lost:
  "findall_desc ''PubmedArticle'' mixed_doc
     = [example_article ''111'' [author_b], example_article ''222'' [empty_forename_author]]
   \<and> has_company_author (example_article ''111'' [author_b])
   \<and> process_article (example_article ''111'' [author_b])
       = Inr (Some \<lparr>pmid = Some ''111'', title = Some ''A study'', date = Some ''2021'',
                    authors = [''Bob Smith''],
                    affiliations = [''Global Biotech LLC, San Diego, bsmith@globalbiotech.com''],
                    emails = [''bsmith@globalbiotech.com'']\<rparr>)
   \<and> extract_records mixed_doc = Inl TypeError"
  by code_simp

text \<open>A parse failure is raised at once as a run-time error, with no result.\<close>

lemma parse_failure_raised:
  "fromstring xml_data = Inl ParseError \<Longrightarrow>
     parse_articles fromstring xml_data = Inl (RuntimeError ''Error parsing XML data from PubMed'')"
  by (simp add: parse_articles_def)

text \<open>Any other error of the parser reaches the caller as it is.\<close>

lemma parser_error_passed_on:
  "fromstring xml_data = Inl e \<Longrightarrow> e \<noteq> ParseError \<Longrightarrow>
     parse_articles fromstring xml_data = Inl e"
  by (simp add: parse_articles_def)

text \<open>
  C9. The parse failure is not the only error that reaches the caller: a document that
  parses, with a company author whose family name is present without text, makes
  \<^verbatim>\<open>parse_articles\<close> raise a type error.
\<close>

theorem parse_articles_type_error:
  "parse_articles (\<lambda>xml_data. Inr empty_lastname_doc) xml_data = Inl TypeError"
proof -
  have "extract_records empty_lastname_doc = Inl TypeError"
    by code_simp
  then show ?thesis by (simp add: parse_articles_def)
qed

section \<open>Several affiliation blocks\<close>

lemma first_append: "first xs = Some v \<Longrightarrow> first (xs @ ys) = Some v"
  by (cases xs) (simp_all add: first_def)

lemma findall_desc_child_append:
  "findall_desc_child t1 t2 (Element g x (a @ b)) =
     findall_desc_child t1 t2 (Element g x a) @ findall_desc_child t1 t2 (Element g x b)"
  by (simp add: findall_desc_child_def descendants_def)

lemma find_desc_child_append:
  assumes "find_desc_child t1 t2 (Element g x a) = Some v"
  shows "find_desc_child t1 t2 (Element g x (a @ b)) = Some v"
  using assms unfolding find_desc_child_def findall_desc_child_append
  by (rule first_append)

lemma find_child_skip:
  assumes "list_all (\<lambda>e. tag e = u) later" and "u \<noteq> t"
  shows "find_child t (Element g x (cs1 @ later @ cs2)) = find_child t (Element g x (cs1 @ cs2))"
proof -
  from assms have "filter (\<lambda>c. tag c = t) later = []"
    by (auto simp: list_all_iff filter_empty_conv)
  then show ?thesis by (simp add: find_child_def child_elems_def)
qed

lemma full_name_cong:
  assumes "find_child ''ForeName'' au = find_child ''ForeName'' au'"
    and "find_child ''LastName'' au = find_child ''LastName'' au'"
  shows "full_name au = full_name au'"
  by (simp add: full_name_def assms)

lemma loop_cong:
  assumes "find_desc_child ''AffiliationInfo'' ''Affiliation'' au
             = find_desc_child ''AffiliationInfo'' ''Affiliation'' au'"
    and "full_name au = full_name au'"
  shows "company_authors_loop (au # rest) acc = company_authors_loop (au' # rest) acc"
proof -
  have ae: "author_entry au af = author_entry au' af" for af
    by (simp add: author_entry_def assms(2))
  show ?thesis by (simp add: assms(1) ae split: option.split)
qed

text \<open>
  The affiliation looked up is the first affiliation text of the first affiliation
  block, in document order, that holds one.
\<close>

lemma find_desc_child_first_block:
  assumes "descendants t1 au = before @ blk # after"
    and "\<forall>b \<in> set before. child_elems t2 b = []"
    and "child_elems t2 blk = v # others"
  shows "find_desc_child t1 t2 au = Some v"
proof -
  from assms(2) have c: "concat (map (child_elems t2) before) = []"
    by simp
  have "findall_desc_child t1 t2 au =
          concat (map (child_elems t2) before) @ child_elems t2 blk
            @ concat (map (child_elems t2) after)"
    by (simp add: findall_desc_child_def assms(1))
  then have "findall_desc_child t1 t2 au = v # (others @ concat (map (child_elems t2) after))"
    by (simp only: c assms(3) append_Nil append_Cons)
  then show ?thesis
    by (simp add: find_desc_child_def first_def)
qed

text \<open>
  Once an author entry holds an affiliation text, further affiliation blocks put after
  it among the author's children change nothing.
\<close>

lemma later_affiliations_ignored:
  assumes "find_desc_child ''AffiliationInfo'' ''Affiliation'' (Element g x cs1) = Some af"
    and "list_all (\<lambda>e. tag e = ''AffiliationInfo'') later"
  shows "find_desc_child ''AffiliationInfo'' ''Affiliation'' (Element g x (cs1 @ later @ cs2))
           = Some af
       \<and> affiliation_text (Element g x (cs1 @ later @ cs2)) = elem_text af
       \<and> is_company_author (Element g x (cs1 @ later @ cs2))
           = has_company_affiliation (elem_text af)
       \<and> full_name (Element g x (cs1 @ later @ cs2)) = full_name (Element g x (cs1 @ cs2))
       \<and> company_authors_loop (Element g x (cs1 @ later @ cs2) # rest) acc
           = company_authors_loop (Element g x (cs1 @ cs2) # rest) acc"
proof -
  let ?with = "Element g x (cs1 @ later @ cs2)"
  let ?without = "Element g x (cs1 @ cs2)"
  have a: "find_desc_child ''AffiliationInfo'' ''Affiliation'' ?with = Some af"
    by (rule find_desc_child_append [OF assms(1)])
  have a': "find_desc_child ''AffiliationInfo'' ''Affiliation'' ?without = Some af"
    by (rule find_desc_child_append [OF assms(1)])
  have b: "affiliation_text ?with = elem_text af"
    by (simp add: affiliation_text_def a)
  have c: "is_company_author ?with = has_company_affiliation (elem_text af)"
    by (simp only: is_company_author_def b)
  have "find_child ''ForeName'' ?with = find_child ''ForeName'' ?without"
    by (rule find_child_skip [OF assms(2)]) simp
  moreover have "find_child ''LastName'' ?with = find_child ''LastName'' ?without"
    by (rule find_child_skip [OF assms(2)]) simp
  ultimately have d: "full_name ?with = full_name ?without"
    by (rule full_name_cong)
  from a a' have "find_desc_child ''AffiliationInfo'' ''Affiliation'' ?with
             = find_desc_child ''AffiliationInfo'' ''Affiliation'' ?without"
    by simp
  from this d have e: "company_authors_loop (?with # rest) acc
           = company_authors_loop (?without # rest) acc"
    by (rule loop_cong)
  from a b c d e show ?thesis by (intro conjI)
qed

lemma later_affiliations_ignored_example:
  "find_desc_child ''AffiliationInfo'' ''Affiliation'' (Element ''Author'' None company_fields)
     = Some (Element ''Affiliation'' (Some ''Global Biotech LLC, San Diego'') [])
   \<and> list_all (\<lambda>e. tag e = ''AffiliationInfo'') [later_block]
   \<and> company_authors_loop
       [Element ''Author'' None (company_fields @ [later_block] @ [])] []
       = Inr [(''Bob Smith'', ''Global Biotech LLC, San Diego'', ''N/A'')]"
proof -
  have f: "find_desc_child ''AffiliationInfo'' ''Affiliation''
             (Element ''Author'' None company_fields)
           = Some (Element ''Affiliation'' (Some ''Global Biotech LLC, San Diego'') [])"
    by code_simp
  have m: "list_all (\<lambda>e. tag e = ''AffiliationInfo'') [later_block]"
    by (simp add: later_block_def)
  note inst = later_affiliations_ignored [OF f m, of "[]" "[]" "[]"]
  note eq = inst [THEN conjunct2, THEN conjunct2, THEN conjunct2, THEN conjunct2]
  have "company_authors_loop [Element ''Author'' None (company_fields @ [])] []
       = Inr [(''Bob Smith'', ''Global Biotech LLC, San Diego'', ''N/A'')]"
    by code_simp
  with eq have "company_authors_loop
       [Element ''Author'' None (company_fields @ [later_block] @ [])] []
       = Inr [(''Bob Smith'', ''Global Biotech LLC, San Diego'', ''N/A'')]"
    by (rule trans)
  with f m show ?thesis by (intro conjI)
qed










end
